theory Spec2Isabelle
  imports Main "HOL-Library.Multiset"
begin

section \<open>The order model of \<^verbatim>\<open>main.go\<close>\<close>

text \<open>
  The program keeps orders received from a message channel in an in-memory map, mirrors
  them into a table \<^verbatim>\<open>messages (id, data)\<close> and serves them over HTTP by id. Go's
  \<^verbatim>\<open>string\<close> is a byte sequence, which is what \<^typ>\<open>string\<close> is here; Go's \<^verbatim>\<open>int\<close> is
  taken to be 64 bits wide, and the only place where the width matters (the range check of
  \<^verbatim>\<open>strconv\<close>) is written out. A \<^verbatim>\<open>time.Time\<close> is an instant with the offset of its zone, both in seconds (the
  instant counted from the zero time); the program never looks into it, the encoder does.
  A slice field distinguishes \<^verbatim>\<open>nil\<close> from an empty slice (they are encoded differently),
  so \<^verbatim>\<open>Items\<close> is an optional list, \<open>None\<close> being \<^verbatim>\<open>nil\<close>.
\<close>

datatype Time = Time int int

record DeliveryInfo =
  Name :: string
  Phone :: string
  Zip :: string
  City :: string
  Address :: string
  Region :: string
  Email :: string

record PaymentInfo =
  Transaction :: string
  RequestID :: string
  Currency :: string
  Provider :: string
  Amount :: int
  PaymentDT :: int
  Bank :: string
  DeliveryCost :: int
  GoodsTotal :: int
  CustomFee :: int

record Item =
  ChrtID :: int
  Item_TrackNumber :: string
  Price :: int
  RID :: string
  Item_Name :: string
  Sale :: int
  Size :: string
  TotalPrice :: int
  NmID :: int
  Brand :: string
  Status :: int

record Message =
  OrderUID :: string
  TrackNumber :: string
  Entry :: string
  Delivery :: DeliveryInfo
  Payment :: PaymentInfo
  Items :: "Item list option"
  Locale :: string
  InternalSig :: string
  CustomerID :: string
  DeliveryService :: string
  ShardKey :: string
  SMID :: int
  DateCreated :: Time
  OofShard :: string

text \<open>The zero value of \<^verbatim>\<open>Message\<close>, which \<^verbatim>\<open>var message Message\<close> declares.\<close>

definition zero_Message :: Message where
  "zero_Message =
     \<lparr>OrderUID = [], TrackNumber = [], Entry = [],
      Delivery = \<lparr>Name = [], Phone = [], Zip = [], City = [], Address = [], Region = [],
                  Email = []\<rparr>,
      Payment = \<lparr>Transaction = [], RequestID = [], Currency = [], Provider = [], Amount = 0,
                 PaymentDT = 0, Bank = [], DeliveryCost = 0, GoodsTotal = 0, CustomFee = 0\<rparr>,
      Items = None, Locale = [], InternalSig = [], CustomerID = [], DeliveryService = [],
      ShardKey = [], SMID = 0, DateCreated = Time 0 0, OofShard = []\<rparr>"

text \<open>Every failure the program tests for, as a value.\<close>

datatype error =
    ErrSyntax
  | ErrRange
  | ErrScan
  | ErrUnmarshal
  | ErrMarshal
  | ErrQuery
  | ErrExec

section \<open>\<^verbatim>\<open>strconv.Atoi\<close> and \<^verbatim>\<open>strconv.Itoa\<close>\<close>

text \<open>
  The two library functions through which every identifier of the read path and of the
  recovery path goes. \<^verbatim>\<open>Atoi s\<close> is \<^verbatim>\<open>ParseInt(s, 10, 0)\<close>: an optional sign, then at least
  one decimal digit and nothing else (base 10 takes no underscore); a digit string beyond
  64 bits unsigned, or a value outside the signed 64-bit range, is a range error. Its fast
  path for short strings computes the same value and the same error.
\<close>

definition is_digit :: "char \<Rightarrow> bool" where
  "is_digit c = (48 \<le> (of_char c :: nat) \<and> (of_char c :: nat) \<le> 57)"

definition digit_val :: "char \<Rightarrow> nat" where
  "digit_val c = of_char c - 48"

fun ParseUint_loop :: "string \<Rightarrow> nat \<Rightarrow> error + nat" where
  "ParseUint_loop [] n = Inr n"
| "ParseUint_loop (c # cs) n =
     (if \<not> is_digit c then Inl ErrSyntax
      else if 2 ^ 64 \<le> n * 10 + digit_val c then Inl ErrRange
      else ParseUint_loop cs (n * 10 + digit_val c))"

definition ParseUint :: "string \<Rightarrow> error + nat" where
  "ParseUint s = (if s = [] then Inl ErrSyntax else ParseUint_loop s 0)"

definition ParseInt :: "string \<Rightarrow> error + int" where
  "ParseInt s =
     (if s = [] then Inl ErrSyntax
      else
        let neg = (hd s = CHR ''-'');
            body = (if hd s = CHR ''+'' \<or> hd s = CHR ''-'' then tl s else s)
        in case ParseUint body of
             Inl e \<Rightarrow> Inl e
           | Inr un \<Rightarrow>
               if \<not> neg \<and> 2 ^ 63 \<le> un then Inl ErrRange
               else if neg \<and> 2 ^ 63 < un then Inl ErrRange
               else Inr (if neg then - int un else int un))"

definition Atoi :: "string \<Rightarrow> error + int" where
  "Atoi s = ParseInt s"

fun digits :: "nat \<Rightarrow> string" where
  "digits n =
     (if n < 10 then [char_of (48 + n)] else digits (n div 10) @ [char_of (48 + n mod 10)])"

declare digits.simps [simp del]

definition Itoa :: "int \<Rightarrow> string" where
  "Itoa i = (if i < 0 then CHR ''-'' # digits (nat (- i)) else digits (nat i))"

section \<open>The cache\<close>

text \<open>
  \<^verbatim>\<open>Cache.data\<close> is a \<^verbatim>\<open>map[string]Message\<close>. Every access in the program is one map
  operation under the lock, so each is one atomic step here. The write of the ingestion
  callback is \<open>put\<close>, the comma-ok read is \<open>get\<close>.
\<close>

type_synonym Cache = "string \<rightharpoonup> Message"

definition put :: "Message \<Rightarrow> Cache \<Rightarrow> Cache" where
  "put message data = data(OrderUID message \<mapsto> message)"

definition get :: "Cache \<Rightarrow> string \<Rightarrow> Message option" where
  "get data key = data key"

section \<open>The query handler\<close>

text \<open>
  \<^verbatim>\<open>getDataFromCacheHandler\<close>. The request is its parsed query string, a list of
  key-value pairs of which \<^verbatim>\<open>Get\<close> returns the first value of a key, or the empty string.
  \<^verbatim>\<open>json.Marshal\<close> is a parameter: a function from a \<^verbatim>\<open>Message\<close> to its encoding or an
  error.
\<close>

datatype response =
    StatusOK string
  | StatusBadRequest
  | StatusNotFound
  | StatusInternalServerError

definition query_Get :: "(string \<times> string) list \<Rightarrow> string \<Rightarrow> string" where
  "query_Get q key = (case map_of q key of None \<Rightarrow> [] | Some v \<Rightarrow> v)"

definition getDataFromCacheHandler ::
  "(Message \<Rightarrow> error + string) \<Rightarrow> Cache \<Rightarrow> (string \<times> string) list \<Rightarrow> response" where
  "getDataFromCacheHandler marshal data q =
     (case Atoi (query_Get q ''id'') of
        Inl err \<Rightarrow> StatusBadRequest
      | Inr i \<Rightarrow>
          (case get data (Itoa i) of
             None \<Rightarrow> StatusNotFound
           | Some message \<Rightarrow>
               (case marshal message of
                  Inl err \<Rightarrow> StatusInternalServerError
                | Inr jsonData \<Rightarrow> StatusOK jsonData)))"

section \<open>The durable store and the recovery loader\<close>

text \<open>
  A row of \<^verbatim>\<open>messages\<close> is its \<^verbatim>\<open>id\<close> column, as the text of the value the driver
  hands over, and its \<^verbatim>\<open>data\<close> column. \<^verbatim>\<open>rows.Scan(&id, &data)\<close> with \<^verbatim>\<open>var id int\<close>
  converts the first through \<^verbatim>\<open>strconv.ParseInt(s, 10, 64)\<close> and fails where that fails.
  \<^verbatim>\<open>json.Unmarshal\<close> into a fresh \<^verbatim>\<open>Message\<close> is a parameter: a function from the
  document to the decoded \<^verbatim>\<open>Message\<close> or an error.
\<close>

type_synonym row = "string \<times> string"

definition Scan_id :: "string \<Rightarrow> error + int" where
  "Scan_id src = (case ParseInt src of Inl err \<Rightarrow> Inl ErrScan | Inr i \<Rightarrow> Inr i)"

text \<open>
  The loop of \<^verbatim>\<open>restoreCacheFromDB\<close> over the rows the query delivered. The map is
  updated in place, so at a \<^verbatim>\<open>return err\<close> it holds what the rows before stored.
\<close>

fun restore_rows ::
  "(string \<Rightarrow> error + Message) \<Rightarrow> row list \<Rightarrow> Cache \<Rightarrow> Cache \<times> error option" where
  "restore_rows unmarshal [] data = (data, None)"
| "restore_rows unmarshal ((src, js) # rows) data =
     (case Scan_id src of
        Inl err \<Rightarrow> (data, Some err)
      | Inr i \<Rightarrow>
          (case unmarshal js of
             Inl err \<Rightarrow> (data, Some err)
           | Inr message \<Rightarrow> restore_rows unmarshal rows (data(Itoa i \<mapsto> message))))"

text \<open>
  One pass of the loop body on a row: the cache entry it stores, or the error it returns.
\<close>

definition decode_row :: "(string \<Rightarrow> error + Message) \<Rightarrow> row \<Rightarrow> error + string \<times> Message" where
  "decode_row unmarshal r =
     (case Scan_id (fst r) of
        Inl err \<Rightarrow> Inl err
      | Inr i \<Rightarrow>
          (case unmarshal (snd r) of
             Inl err \<Rightarrow> Inl err
           | Inr message \<Rightarrow> Inr (Itoa i, message)))"

datatype log_line =
    Failed_to_restore_cache_from_DB error
  | Failed_to_unmarshal_message error
  | Failed_to_save_message_to_DB error
  | Cache_restored_from_DB
  | Subscribed_to_channel
  | Starting_HTTP_server
  | Fatal error

text \<open>
  What the program owns and what it writes to: the cache, the table and the log. Whether
  \<^verbatim>\<open>db.Query\<close> and \<^verbatim>\<open>db.Exec\<close> succeed is the store's choice, given as a flag.
\<close>

record State =
  cache :: Cache
  messages :: "row list"
  logged :: "log_line list"

definition restoreCacheFromDB ::
  "(string \<Rightarrow> error + Message) \<Rightarrow> bool \<Rightarrow> State \<Rightarrow> State \<times> error option" where
  "restoreCacheFromDB unmarshal query_ok s =
     (if \<not> query_ok then (s, Some ErrQuery)
      else
        case restore_rows unmarshal (messages s) (cache s) of
          (data, Some err) \<Rightarrow> (s\<lparr>cache := data\<rparr>, Some err)
        | (data, None) \<Rightarrow>
            (s\<lparr>cache := data, logged := logged s @ [Cache_restored_from_DB]\<rparr>, None))"

section \<open>The ingestion callback\<close>

definition saveMessageToDB ::
  "(Message \<Rightarrow> error + string) \<Rightarrow> bool \<Rightarrow> Message \<Rightarrow> row list \<Rightarrow> row list \<times> error option"
  where
  "saveMessageToDB marshal exec_ok message table =
     (case marshal message of
        Inl err \<Rightarrow> (table, Some err)
      | Inr js \<Rightarrow>
          if exec_ok then (table @ [(OrderUID message, js)], None)
          else (table, Some ErrExec))"

text \<open>The function \<^verbatim>\<open>subscribeToNATS\<close> passes to \<^verbatim>\<open>nc.Subscribe\<close>, run on one payload.\<close>

definition subscribe_callback ::
  "(string \<Rightarrow> error + Message) \<Rightarrow> (Message \<Rightarrow> error + string) \<Rightarrow> bool \<Rightarrow> string \<Rightarrow>
   State \<Rightarrow> State" where
  "subscribe_callback unmarshal marshal exec_ok payload s =
     (case unmarshal payload of
        Inl err \<Rightarrow> s\<lparr>logged := logged s @ [Failed_to_unmarshal_message err]\<rparr>
      | Inr message \<Rightarrow>
          (let s1 = s\<lparr>cache := put message (cache s)\<rparr> in
           case saveMessageToDB marshal exec_ok message (messages s1) of
             (table, Some err) \<Rightarrow>
               s1\<lparr>messages := table,
                  logged := logged s1 @ [Failed_to_save_message_to_DB err]\<rparr>
           | (table, None) \<Rightarrow> s1\<lparr>messages := table\<rparr>))"

text \<open>
  The same callback in its two stages, between which the other goroutines run: the decoding
  and the write to the cache (up to \<^verbatim>\<open>cache.Unlock()\<close>), which hands the decoded message
  on, and then the call of \<^verbatim>\<open>saveMessageToDB\<close> with the logging of its error.
\<close>

definition callback_cache ::
  "(string \<Rightarrow> error + Message) \<Rightarrow> string \<Rightarrow> State \<Rightarrow> State \<times> Message option" where
  "callback_cache unmarshal payload s =
     (case unmarshal payload of
        Inl err \<Rightarrow> (s\<lparr>logged := logged s @ [Failed_to_unmarshal_message err]\<rparr>, None)
      | Inr message \<Rightarrow> (s\<lparr>cache := put message (cache s)\<rparr>, Some message))"

definition callback_save ::
  "(Message \<Rightarrow> error + string) \<Rightarrow> bool \<Rightarrow> Message \<Rightarrow> State \<Rightarrow> State" where
  "callback_save marshal exec_ok message s1 =
     (case saveMessageToDB marshal exec_ok message (messages s1) of
        (table, Some err) \<Rightarrow>
          s1\<lparr>messages := table, logged := logged s1 @ [Failed_to_save_message_to_DB err]\<rparr>
      | (table, None) \<Rightarrow> s1\<lparr>messages := table\<rparr>)"

section \<open>The process: \<^verbatim>\<open>main\<close> and the goroutine it starts\<close>

text \<open>
  \<^verbatim>\<open>main\<close> connects to the database, starts \<^verbatim>\<open>subscribeToNATS\<close> with a \<^verbatim>\<open>go\<close>
  statement, registers the handler and serves. The goroutine connects to the message
  server, restores the cache, subscribes and blocks. Each is a sequence of atomic steps
  and the two interleave freely; \<^verbatim>\<open>log.Fatal\<close> ends the process. Once subscribed, the
  callback runs on one message at a time, in its two stages: between the write to the cache
  and the save, \<open>saving\<close> holds the message and the other steps may happen. The trace
  records what has happened, in the order it happened.
\<close>

datatype main_pc =
    Main_connectToDB
  | Main_go_subscribeToNATS
  | Main_HandleFunc
  | Main_ListenAndServe
  | Main_serving

datatype sub_pc =
    Sub_not_started
  | Sub_nats_Connect
  | Sub_restoreCacheFromDB
  | Sub_Subscribe
  | Sub_select

datatype event =
    DB_connected
  | Recovery_attempted "error option"
  | Subscribed
  | Consumed string
  | Served "(string \<times> string) list" response
  | Exited

record Process =
  st :: State
  main_at :: main_pc
  sub_at :: sub_pc
  exited :: bool
  saving :: "Message option"
  trace :: "event list"

definition initial :: "row list \<Rightarrow> Process" where
  "initial table =
     \<lparr>st = \<lparr>cache = Map.empty, messages = table, logged = []\<rparr>,
      main_at = Main_connectToDB, sub_at = Sub_not_started, exited = False, saving = None,
      trace = []\<rparr>"

definition log_line :: "log_line \<Rightarrow> State \<Rightarrow> State" where
  "log_line l s = s\<lparr>logged := logged s @ [l]\<rparr>"

definition fatal :: "error \<Rightarrow> Process \<Rightarrow> Process" where
  "fatal err p = p\<lparr>st := log_line (Fatal err) (st p), exited := True, trace := trace p @ [Exited]\<rparr>"

inductive step ::
  "(string \<Rightarrow> error + Message) \<Rightarrow> (Message \<Rightarrow> error + string) \<Rightarrow> Process \<Rightarrow> Process \<Rightarrow> bool"
  for unmarshal marshal where
  connectToDB_ok:
    "\<not> exited p \<Longrightarrow> main_at p = Main_connectToDB \<Longrightarrow>
     step unmarshal marshal p
       (p\<lparr>main_at := Main_go_subscribeToNATS, trace := trace p @ [DB_connected]\<rparr>)"
| connectToDB_failed:
    "\<not> exited p \<Longrightarrow> main_at p = Main_connectToDB \<Longrightarrow>
     step unmarshal marshal p (fatal err p)"
| go_subscribeToNATS:
    "\<not> exited p \<Longrightarrow> main_at p = Main_go_subscribeToNATS \<Longrightarrow>
     step unmarshal marshal p (p\<lparr>main_at := Main_HandleFunc, sub_at := Sub_nats_Connect\<rparr>)"
| HandleFunc:
    "\<not> exited p \<Longrightarrow> main_at p = Main_HandleFunc \<Longrightarrow>
     step unmarshal marshal p
       (p\<lparr>st := log_line Starting_HTTP_server (st p), main_at := Main_ListenAndServe\<rparr>)"
| ListenAndServe_ok:
    "\<not> exited p \<Longrightarrow> main_at p = Main_ListenAndServe \<Longrightarrow>
     step unmarshal marshal p (p\<lparr>main_at := Main_serving\<rparr>)"
| ListenAndServe_failed:
    "\<not> exited p \<Longrightarrow> main_at p = Main_ListenAndServe \<Longrightarrow>
     step unmarshal marshal p (fatal err p)"
| serve:
    "\<not> exited p \<Longrightarrow> main_at p = Main_serving \<Longrightarrow>
     step unmarshal marshal p
       (p\<lparr>trace := trace p @ [Served q (getDataFromCacheHandler marshal (cache (st p)) q)]\<rparr>)"
| nats_Connect_ok:
    "\<not> exited p \<Longrightarrow> sub_at p = Sub_nats_Connect \<Longrightarrow>
     step unmarshal marshal p (p\<lparr>sub_at := Sub_restoreCacheFromDB\<rparr>)"
| nats_Connect_failed:
    "\<not> exited p \<Longrightarrow> sub_at p = Sub_nats_Connect \<Longrightarrow>
     step unmarshal marshal p (fatal err p)"
| restore:
    "\<not> exited p \<Longrightarrow> sub_at p = Sub_restoreCacheFromDB \<Longrightarrow>
     restoreCacheFromDB unmarshal query_ok (st p) = (s', err) \<Longrightarrow>
     step unmarshal marshal p
       (p\<lparr>st := (case err of None \<Rightarrow> s'
                  | Some e \<Rightarrow> log_line (Failed_to_restore_cache_from_DB e) s'),
          sub_at := Sub_Subscribe, trace := trace p @ [Recovery_attempted err]\<rparr>)"
| Subscribe_ok:
    "\<not> exited p \<Longrightarrow> sub_at p = Sub_Subscribe \<Longrightarrow>
     step unmarshal marshal p
       (p\<lparr>st := log_line Subscribed_to_channel (st p), sub_at := Sub_select,
          trace := trace p @ [Subscribed]\<rparr>)"
| Subscribe_failed:
    "\<not> exited p \<Longrightarrow> sub_at p = Sub_Subscribe \<Longrightarrow>
     step unmarshal marshal p (fatal err p)"
| deliver:
    "\<not> exited p \<Longrightarrow> sub_at p = Sub_select \<Longrightarrow> saving p = None \<Longrightarrow>
     step unmarshal marshal p
       (p\<lparr>st := fst (callback_cache unmarshal payload (st p)),
          saving := snd (callback_cache unmarshal payload (st p)),
          trace := trace p @ [Consumed payload]\<rparr>)"
| save:
    "\<not> exited p \<Longrightarrow> saving p = Some message \<Longrightarrow>
     step unmarshal marshal p
       (p\<lparr>st := callback_save marshal exec_ok message (st p), saving := None\<rparr>)"

inductive reachable ::
  "(string \<Rightarrow> error + Message) \<Rightarrow> (Message \<Rightarrow> error + string) \<Rightarrow> row list \<Rightarrow> Process \<Rightarrow> bool"
  for unmarshal marshal table where
  at_start: "reachable unmarshal marshal table (initial table)"
| after_step: "reachable unmarshal marshal table p \<Longrightarrow> step unmarshal marshal p p' \<Longrightarrow>
               reachable unmarshal marshal table p'"

text \<open>
  \<open>precedes A B tr\<close>: every event of \<open>tr\<close> that satisfies \<open>B\<close> comes after one that
  satisfies \<open>A\<close>.
\<close>

fun precedes_from :: "bool \<Rightarrow> (event \<Rightarrow> bool) \<Rightarrow> (event \<Rightarrow> bool) \<Rightarrow> event list \<Rightarrow> bool" where
  "precedes_from seen A B [] = True"
| "precedes_from seen A B (e # tr) = ((\<not> B e \<or> seen) \<and> precedes_from (seen \<or> A e) A B tr)"

definition precedes :: "(event \<Rightarrow> bool) \<Rightarrow> (event \<Rightarrow> bool) \<Rightarrow> event list \<Rightarrow> bool" where
  "precedes A B tr = precedes_from False A B tr"

fun is_Recovery_attempted :: "event \<Rightarrow> bool" where
  "is_Recovery_attempted (Recovery_attempted err) = True"
| "is_Recovery_attempted e = False"

fun is_Consumed :: "event \<Rightarrow> bool" where
  "is_Consumed (Consumed payload) = True"
| "is_Consumed e = False"

fun is_Served :: "event \<Rightarrow> bool" where
  "is_Served (Served q r) = True"
| "is_Served e = False"

fun is_DB_connected :: "event \<Rightarrow> bool" where
  "is_DB_connected DB_connected = True"
| "is_DB_connected e = False"

fun is_Subscribed :: "event \<Rightarrow> bool" where
  "is_Subscribed Subscribed = True"
| "is_Subscribed e = False"

text \<open>A cache all of whose records are values the decoder returns.\<close>

definition decoded_cache :: "(string \<Rightarrow> error + Message) \<Rightarrow> Cache \<Rightarrow> bool" where
  "decoded_cache unmarshal data =
     (\<forall>key message. data key = Some message \<longrightarrow> (\<exists>js. unmarshal js = Inr message))"

section \<open>Sample documents\<close>

text \<open>
  The properties below hold for every decoder and encoder. Examples need concrete ones:
  \<open>json_Unmarshal_sample\<close> and \<open>json_Marshal_sample\<close> agree with \<^verbatim>\<open>encoding/json\<close> on the
  documents and orders listed here (an order that is zero but for its \<^verbatim>\<open>order_uid\<close>, in
  the encoding \<^verbatim>\<open>json.Marshal\<close> gives it, and the empty object with and without a
  trailing space, which decodes to the zero value), on the text \<^verbatim>\<open>not json\<close>, which
  does not decode, and on a document whose \<^verbatim>\<open>date_created\<close> has the zone offset
  \<^verbatim>\<open>+24:00\<close>: it decodes, and \<^verbatim>\<open>json.Marshal\<close> refuses the decoded record, the hour of
  the offset being outside 0 to 23. Off the list they report an error; the examples stay on
  the list.
\<close>

definition order :: "string \<Rightarrow> Message" where
  "order uid = zero_Message\<lparr>OrderUID := uid\<rparr>"

definition order_json :: "string \<Rightarrow> string" where
  \<open>order_json uid =
     ''{"order_uid":"'' @ uid @ ''","track_number":"","entry":"","delivery":{"name":"",'' @
     ''"phone":"","zip":"","city":"","address":"","region":"","email":""},"payment":{'' @
     ''"transaction":"","request_id":"","currency":"","provider":"","amount":0,'' @
     ''"payment_dt":0,"bank":"","delivery_cost":0,"goods_total":0,"custom_fee":0},'' @
     ''"items":null,"locale":"","internal_signature":"","customer_id":"",'' @
     ''"delivery_service":"","shardkey":"","sm_id":0,'' @
     ''"date_created":"0001-01-01T00:00:00Z","oof_shard":""}''\<close>

definition late_zone_json :: string where
  \<open>late_zone_json = ''{"date_created":"2021-11-26T06:22:19+24:00"}''\<close>

definition late_zone_order :: Message where
  "late_zone_order = zero_Message\<lparr>DateCreated := Time 63773418139 86400\<rparr>"

definition sample_uids :: "string list" where
  "sample_uids = ['''', ''7'', ''order-1'', ''abc123'']"

definition json_Unmarshal_sample :: "string \<Rightarrow> error + Message" where
  "json_Unmarshal_sample js =
     (if js = ''{}'' \<or> js = ''{} '' then Inr zero_Message
      else if js = late_zone_json then Inr late_zone_order
      else case find (\<lambda>uid. js = order_json uid) sample_uids of
             Some uid \<Rightarrow> Inr (order uid)
           | None \<Rightarrow> Inl ErrUnmarshal)"

definition json_Marshal_sample :: "Message \<Rightarrow> error + string" where
  "json_Marshal_sample message =
     (if OrderUID message \<in> set sample_uids \<and> message = order (OrderUID message)
      then Inr (order_json (OrderUID message))
      else Inl ErrMarshal)"

text \<open>The state of a process that has just started on a given table.\<close>

definition sample_state :: "row list \<Rightarrow> State" where
  "sample_state table = \<lparr>cache = Map.empty, messages = table, logged = []\<rparr>"

text \<open>
  Two moments of one run of the process on a table that holds the order \<^verbatim>\<open>7\<close>: the
  server has answered a lookup of \<^verbatim>\<open>7\<close> while the goroutine has not yet connected to
  the message server; and later, after recovery and subscription, it has answered the
  same lookup again.
\<close>

definition served_before_recovery :: Process where
  "served_before_recovery =
     \<lparr>st = \<lparr>cache = Map.empty, messages = [(''7'', order_json ''7'')],
             logged = [Starting_HTTP_server]\<rparr>,
      main_at = Main_serving, sub_at = Sub_nats_Connect, exited = False, saving = None,
      trace = [DB_connected, Served [(''id'', ''7'')] StatusNotFound]\<rparr>"

definition served_after_recovery :: Process where
  "served_after_recovery =
     \<lparr>st = \<lparr>cache = [''7'' \<mapsto> order ''7''], messages = [(''7'', order_json ''7'')],
             logged = [Starting_HTTP_server, Cache_restored_from_DB, Subscribed_to_channel]\<rparr>,
      main_at = Main_serving, sub_at = Sub_select, exited = False, saving = None,
      trace = [DB_connected, Served [(''id'', ''7'')] StatusNotFound, Recovery_attempted None,
               Subscribed, Served [(''id'', ''7'')] (StatusOK (order_json ''7''))]\<rparr>"

text \<open>
  A moment of a run on a table whose row \<^verbatim>\<open>7\<close> holds the document with the offset
  \<^verbatim>\<open>+24:00\<close>: recovery has loaded it and the server has answered a lookup of \<^verbatim>\<open>7\<close>.
\<close>

definition served_internal_error :: Process where
  "served_internal_error =
     \<lparr>st = \<lparr>cache = [''7'' \<mapsto> late_zone_order], messages = [(''7'', late_zone_json)],
             logged = [Cache_restored_from_DB, Starting_HTTP_server]\<rparr>,
      main_at = Main_serving, sub_at = Sub_Subscribe, exited = False, saving = None,
      trace = [DB_connected, Recovery_attempted None,
               Served [(''id'', ''7'')] StatusInternalServerError]\<rparr>"

section \<open>Properties of \<^verbatim>\<open>Atoi\<close> and \<^verbatim>\<open>Itoa\<close>\<close>

lemma is_digit_char_of: "(d::nat) < 10 \<Longrightarrow> is_digit (char_of (48 + d))"
  by (simp add: is_digit_def)

lemma digit_val_char_of: "(d::nat) < 10 \<Longrightarrow> digit_val (char_of (48 + d)) = d"
  by (simp add: digit_val_def)

lemma ParseUint_loop_append:
  "ParseUint_loop (xs @ ys) n =
     (case ParseUint_loop xs n of Inl e \<Rightarrow> Inl e | Inr m \<Rightarrow> ParseUint_loop ys m)"
  by (induction xs arbitrary: n) auto

lemma ParseUint_loop_digits: "n < 2 ^ 64 \<Longrightarrow> ParseUint_loop (digits n) 0 = Inr n"
proof (induction n rule: digits.induct)
  case (1 n)
  show ?case
  proof (cases "n < 10")
    case True
    then show ?thesis using 1(2)
      by (subst digits.simps) (simp add: is_digit_char_of digit_val_char_of)
  next
    case False
    have small: "n div 10 < 2 ^ 64" using 1(2) by simp
    from False 1(1) small have "ParseUint_loop (digits (n div 10)) 0 = Inr (n div 10)" by simp
    then show ?thesis using False 1(2)
      by (subst digits.simps)
        (simp add: ParseUint_loop_append is_digit_char_of digit_val_char_of)
  qed
qed

lemma digits_not_Nil: "digits n \<noteq> []"
  by (subst digits.simps) simp

lemma digits_all_digit: "c \<in> set (digits n) \<Longrightarrow> is_digit c"
proof (induction n rule: digits.induct)
  case (1 n)
  show ?case
  proof (cases "n < 10")
    case True
    with 1(2) show ?thesis by (subst (asm) digits.simps) (simp add: is_digit_char_of)
  next
    case False
    have "n mod 10 < 10" by simp
    then have "is_digit (char_of (48 + n mod 10))" by (rule is_digit_char_of)
    with False 1 show ?thesis
      by (subst (asm) (2) digits.simps) auto
  qed
qed

lemma hd_digits_is_digit: "is_digit (hd (digits n))"
  using digits_all_digit [of "hd (digits n)" n] digits_not_Nil [of n] by simp

lemma not_digit_sign: "\<not> is_digit CHR ''-''" "\<not> is_digit CHR ''+''"
  by (simp_all add: is_digit_def)

lemma hd_digits_not_sign: "hd (digits n) \<noteq> CHR ''-''" "hd (digits n) \<noteq> CHR ''+''"
  using hd_digits_is_digit [of n] not_digit_sign by auto

lemma Itoa_not_Nil: "Itoa i \<noteq> []"
  by (simp add: Itoa_def digits_not_Nil)

lemma Atoi_Itoa:
  assumes "- (2 ^ 63) \<le> i" and "i < 2 ^ 63"
  shows "Atoi (Itoa i) = Inr i"
proof (cases "i < 0")
  case True
  have "nat (- i) \<le> 2 ^ 63" using assms(1) by simp
  moreover then have "nat (- i) < 2 ^ 64" by (simp add: order_le_less_trans)
  ultimately show ?thesis using True
    by (simp add: Atoi_def ParseInt_def ParseUint_def Itoa_def digits_not_Nil
        ParseUint_loop_digits)
next
  case False
  have "nat i < 2 ^ 63" using assms(2) False by simp
  moreover then have "nat i < 2 ^ 64" by (simp add: order_less_trans)
  ultimately show ?thesis using False
    by (simp add: Atoi_def ParseInt_def ParseUint_def Itoa_def digits_not_Nil
        hd_digits_not_sign ParseUint_loop_digits)
qed

lemma Atoi_range: "Atoi s = Inr i \<Longrightarrow> - (2 ^ 63) \<le> i \<and> i < 2 ^ 63"
  by (auto simp: Atoi_def ParseInt_def Let_def split: if_splits sum.splits)

lemma Itoa_inject:
  assumes i: "- (2 ^ 63) \<le> i" "i < 2 ^ 63" and j: "- (2 ^ 63) \<le> j" "j < 2 ^ 63"
    and eq: "Itoa i = Itoa j"
  shows "i = j"
proof -
  have "Atoi (Itoa i) = Inr i" using i by (rule Atoi_Itoa)
  moreover have "Atoi (Itoa j) = Inr j" using j by (rule Atoi_Itoa)
  moreover have "Atoi (Itoa i) = Atoi (Itoa j)" using eq by (rule arg_cong)
  ultimately have "(Inr i :: error + int) = Inr j" by (simp only:)
  then show ?thesis by (simp only: sum.inject)
qed

section \<open>Properties of the cache\<close>

lemma get_empty: "get Map.empty key = None"
  by (simp add: get_def)

lemma get_put_same: "get (put message data) (OrderUID message) = Some message"
  by (simp add: get_def put_def)

lemma get_put_other: "key \<noteq> OrderUID message \<Longrightarrow> get (put message data) key = get data key"
  by (simp add: get_def put_def)

lemma get_fold_put_None:
  "get (fold put ms data) key = None \<longleftrightarrow> get data key = None \<and> key \<notin> OrderUID ` set ms"
proof (induction ms arbitrary: data)
  case Nil
  show ?case by simp
next
  case (Cons m ms)
  have "get (put m data) key = None \<longleftrightarrow> get data key = None \<and> key \<noteq> OrderUID m"
    by (cases "key = OrderUID m") (simp_all add: get_put_same get_put_other)
  with Cons show ?case by auto
qed

text \<open>
  C6. After \<open>put R\<close>, \<open>get\<close> on \<open>R\<close>'s order identifier returns exactly \<open>R\<close> (the whole
  record, so every field and the items in their order); and in a cache built from the empty
  map by any sequence of puts, \<open>get\<close> on an identifier that none of them inserted finds
  nothing.
\<close>

theorem C6_put_get:
  "get (put R data) (OrderUID R) = Some R \<and>
   (key \<notin> OrderUID ` set ms \<longrightarrow> get (fold put ms Map.empty) key = None)"
  by (simp add: get_put_same get_fold_put_None get_empty)

theorem C6_witness:
  "get (put (order ''order-1'') Map.empty) (OrderUID (order ''order-1'')) = Some (order ''order-1'') \<and>
   ''order-2'' \<notin> OrderUID ` set [order ''order-1'', order ''7''] \<and>
   get (fold put [order ''order-1'', order ''7''] Map.empty) ''order-2'' = None"
  using C6_put_get [of "order ''order-1''" Map.empty "''order-2''" "[order ''order-1'', order ''7'']"]
  by (simp add: order_def)

section \<open>Properties of the recovery loader\<close>

lemma restore_rows_Cons:
  "restore_rows u (r # rows) data =
     (case decode_row u r of
        Inl err \<Rightarrow> (data, Some err)
      | Inr kv \<Rightarrow> restore_rows u rows (data(fst kv \<mapsto> snd kv)))"
  by (cases r) (simp add: decode_row_def split: sum.splits)

lemma restore_rows_append:
  "restore_rows u (pre @ rest) data =
     (case restore_rows u pre data of
        (data', Some err) \<Rightarrow> (data', Some err)
      | (data', None) \<Rightarrow> restore_rows u rest data')"
proof (induction pre arbitrary: data)
  case Nil
  show ?case by simp
next
  case (Cons r pre)
  show ?case
  proof (cases "decode_row u r")
    case (Inl e)
    then show ?thesis by (simp add: restore_rows_Cons del: restore_rows.simps)
  next
    case (Inr kv)
    have "restore_rows u ((r # pre) @ rest) data =
        restore_rows u (pre @ rest) (data(fst kv \<mapsto> snd kv))"
      by (simp add: restore_rows_Cons Inr del: restore_rows.simps)
    also have "\<dots> =
        (case restore_rows u pre (data(fst kv \<mapsto> snd kv)) of
           (data', Some err) \<Rightarrow> (data', Some err)
         | (data', None) \<Rightarrow> restore_rows u rest data')"
      by (rule Cons.IH)
    also have "\<dots> =
        (case restore_rows u (r # pre) data of
           (data', Some err) \<Rightarrow> (data', Some err)
         | (data', None) \<Rightarrow> restore_rows u rest data')"
      by (simp add: restore_rows_Cons Inr del: restore_rows.simps)
    finally show ?thesis .
  qed
qed

lemma restore_rows_all_decoded:
  "\<forall>r \<in> set rows. \<not> isl (decode_row u r) \<Longrightarrow>
   restore_rows u rows data = (data ++ map_of (rev (map (projr \<circ> decode_row u) rows)), None)"
proof (induction rows arbitrary: data)
  case Nil
  show ?case by simp
next
  case (Cons r rows)
  from Cons.prems obtain k m where r: "decode_row u r = Inr (k, m)"
    by (cases "decode_row u r") auto
  from Cons.prems have rest: "\<forall>r \<in> set rows. \<not> isl (decode_row u r)" by simp
  have upd: "data(k \<mapsto> m) = data ++ [k \<mapsto> m]" by simp
  have "restore_rows u (r # rows) data = restore_rows u rows (data(k \<mapsto> m))"
    by (simp add: restore_rows_Cons r del: restore_rows.simps)
  also have "\<dots> = (data(k \<mapsto> m) ++ map_of (rev (map (projr \<circ> decode_row u) rows)), None)"
    using rest by (rule Cons.IH)
  also have "data(k \<mapsto> m) ++ map_of (rev (map (projr \<circ> decode_row u) rows)) =
      data ++ map_of (rev (map (projr \<circ> decode_row u) (r # rows)))"
    by (simp only: upd list.map rev.simps map_of_append o_apply r sum.sel
        map_add_assoc map_of.simps map_add_empty fst_conv snd_conv)
  finally show ?case .
qed

lemma restore_rows_stops:
  assumes "\<forall>r \<in> set pre. \<not> isl (decode_row u r)" and "decode_row u bad = Inl err"
  shows "restore_rows u (pre @ bad # rest) data = (fst (restore_rows u pre data), Some err)"
  using assms
  by (simp add: restore_rows_append restore_rows_all_decoded restore_rows_Cons
      del: restore_rows.simps)

lemma decode_row_Inr:
  "decode_row u r = Inr kv \<longleftrightarrow>
     (\<exists>i m. Scan_id (fst r) = Inr i \<and> u (snd r) = Inr m \<and> kv = (Itoa i, m))"
  by (auto simp: decode_row_def split: sum.splits)

lemma Scan_id_Inr: "Scan_id src = Inr i \<longleftrightarrow> Atoi src = Inr i"
  by (simp add: Scan_id_def Atoi_def split: sum.splits)

lemma decoded_keys_distinct:
  assumes ok: "\<forall>r \<in> set rows. \<not> isl (decode_row u r)"
    and ids: "distinct (map (Scan_id \<circ> fst) rows)"
  shows "distinct (map fst (map (projr \<circ> decode_row u) rows))"
proof -
  have "inj_on (fst \<circ> (projr \<circ> decode_row u)) (set rows) \<and> distinct rows"
  proof
    show "inj_on (fst \<circ> (projr \<circ> decode_row u)) (set rows)"
    proof (rule inj_onI)
      fix r r' assume r: "r \<in> set rows" and r': "r' \<in> set rows"
        and eq: "(fst \<circ> (projr \<circ> decode_row u)) r = (fst \<circ> (projr \<circ> decode_row u)) r'"
      from ok r obtain i m where d: "Scan_id (fst r) = Inr i" "decode_row u r = Inr (Itoa i, m)"
        by (cases "decode_row u r") (auto simp: decode_row_Inr)
      from ok r' obtain j m' where d': "Scan_id (fst r') = Inr j" "decode_row u r' = Inr (Itoa j, m')"
        by (cases "decode_row u r'") (auto simp: decode_row_Inr)
      from eq d d' have keys: "Itoa i = Itoa j" by simp
      from d(1) have "Atoi (fst r) = Inr i" by (simp only: Scan_id_Inr)
      then have "- (2 ^ 63) \<le> i \<and> i < 2 ^ 63" by (rule Atoi_range)
      moreover from d'(1) have "Atoi (fst r') = Inr j" by (simp only: Scan_id_Inr)
      then have "- (2 ^ 63) \<le> j \<and> j < 2 ^ 63" by (rule Atoi_range)
      ultimately have "i = j" using keys by (blast intro: Itoa_inject)
      with d(1) d'(1) have "(Scan_id \<circ> fst) r = (Scan_id \<circ> fst) r'" by simp
      with ids r r' show "r = r'" by (meson distinct_map inj_onD)
    qed
    from ids show "distinct rows" by (simp add: distinct_map)
  qed
  then show ?thesis by (simp add: distinct_map)
qed

lemma restore_rows_retrieves:
  assumes ok: "\<forall>r \<in> set rows. \<not> isl (decode_row u r)"
    and ids: "distinct (map (Scan_id \<circ> fst) rows)"
    and r: "(src, js) \<in> set rows" and i: "Scan_id src = Inr i" and m: "u js = Inr m"
  shows "fst (restore_rows u rows data) (Itoa i) = Some m"
proof -
  let ?kvs = "map (projr \<circ> decode_row u) rows"
  have "decode_row u (src, js) = Inr (Itoa i, m)" using i m by (simp add: decode_row_def)
  with r have "(Itoa i, m) \<in> set (rev ?kvs)" by force
  moreover have "distinct (map fst (rev ?kvs))"
    using decoded_keys_distinct [OF ok ids] by (simp add: rev_map [symmetric])
  ultimately have "map_of (rev ?kvs) (Itoa i) = Some m" by (rule map_of_is_SomeI [rotated])
  then show ?thesis by (simp add: restore_rows_all_decoded [OF ok] map_add_Some_iff)
qed

lemma restore_rows_permutation:
  assumes perm: "mset rows' = mset rows"
    and ok: "\<forall>r \<in> set rows. \<not> isl (decode_row u r)"
    and ids: "distinct (map (Scan_id \<circ> fst) rows)"
  shows "restore_rows u rows' data = restore_rows u rows data"
proof -
  let ?f = "projr \<circ> decode_row u"
  from perm have sets: "set rows' = set rows" by (rule mset_eq_setD)
  with ok have ok': "\<forall>r \<in> set rows'. \<not> isl (decode_row u r)" by simp
  from perm have "mset (map (Scan_id \<circ> fst) rows') = mset (map (Scan_id \<circ> fst) rows)" by simp
  with ids have ids': "distinct (map (Scan_id \<circ> fst) rows')"
    by (metis mset_eq_imp_distinct_iff)
  have "distinct (map fst (rev (map ?f rows)))"
    using decoded_keys_distinct [OF ok ids] by (simp add: rev_map [symmetric])
  moreover have "distinct (map fst (rev (map ?f rows')))"
    using decoded_keys_distinct [OF ok' ids'] by (simp add: rev_map [symmetric])
  moreover have "set (rev (map ?f rows')) = set (rev (map ?f rows))" using sets by simp
  ultimately have "map_of (rev (map ?f rows')) = map_of (rev (map ?f rows))"
    by (simp add: map_of_inject_set)
  then show ?thesis
    by (simp only: restore_rows_all_decoded [OF ok] restore_rows_all_decoded [OF ok'])
qed

section \<open>The sample documents, evaluated\<close>

lemma OrderUID_order: "OrderUID (order uid) = uid"
  by (simp add: order_def)

lemma zero_Message_order: "zero_Message = order []"
  by (simp add: order_def zero_Message_def)

lemma order_json_inject: "order_json uid = order_json uid' \<longleftrightarrow> uid = uid'"
  by (simp only: order_json_def same_append_eq append_same_eq)

lemma order_json_starts: "\<exists>t. order_json uid = CHR ''{'' # CHR 0x22 # CHR ''o'' # t"
  by (simp add: order_json_def)

lemma order_json_other:
  "order_json uid \<noteq> ''{}''" "order_json uid \<noteq> ''{} ''" "order_json uid \<noteq> ''not json''"
  "order_json uid \<noteq> late_zone_json"
  using order_json_starts [of uid] by (auto simp: late_zone_json_def)

lemma late_zone_json_other:
  "late_zone_json \<noteq> ''{}''" "late_zone_json \<noteq> ''{} ''" "''not json'' \<noteq> late_zone_json"
  by (simp_all add: late_zone_json_def)

lemma json_Unmarshal_sample_empty_object:
  "json_Unmarshal_sample ''{}'' = Inr (order [])"
  "json_Unmarshal_sample ''{} '' = Inr (order [])"
  by (simp_all add: json_Unmarshal_sample_def zero_Message_order)

lemma json_Unmarshal_sample_not_json: "json_Unmarshal_sample ''not json'' = Inl ErrUnmarshal"
  using order_json_other(3) [symmetric]
  by (simp add: json_Unmarshal_sample_def sample_uids_def late_zone_json_other)

lemma json_Unmarshal_sample_order_json:
  "json_Unmarshal_sample (order_json ''7'') = Inr (order ''7'')"
  "json_Unmarshal_sample (order_json ''order-1'') = Inr (order ''order-1'')"
  "json_Unmarshal_sample (order_json ''abc123'') = Inr (order ''abc123'')"
  by (simp_all add: json_Unmarshal_sample_def sample_uids_def order_json_inject order_json_other)

lemma json_Marshal_sample_order:
  "json_Marshal_sample (order []) = Inr (order_json [])"
  "json_Marshal_sample (order ''7'') = Inr (order_json ''7'')"
  "json_Marshal_sample (order ''order-1'') = Inr (order_json ''order-1'')"
  "json_Marshal_sample (order ''abc123'') = Inr (order_json ''abc123'')"
  by (simp_all add: json_Marshal_sample_def sample_uids_def OrderUID_order)

lemma json_Unmarshal_sample_late_zone: "json_Unmarshal_sample late_zone_json = Inr late_zone_order"
  by (simp add: json_Unmarshal_sample_def late_zone_json_other)

lemma json_Marshal_sample_late_zone: "json_Marshal_sample late_zone_order = Inl ErrMarshal"
  by (simp add: json_Marshal_sample_def late_zone_order_def order_def zero_Message_def)

lemma Atoi_samples:
  "Atoi ''7'' = Inr 7" "Atoi ''007'' = Inr 7" "Atoi ''+7'' = Inr 7" "Atoi ''1'' = Inr 1"
  "Atoi ''abc123'' = Inl ErrSyntax" "Atoi ''order-1'' = Inl ErrSyntax" "Atoi [] = Inl ErrSyntax"
  by (simp_all add: Atoi_def ParseInt_def ParseUint_def is_digit_def digit_val_def)

lemma Itoa_samples: "Itoa 7 = ''7''" "Itoa 1 = ''1''"
  by code_simp+

lemma Scan_id_samples:
  "Scan_id ''7'' = Inr 7" "Scan_id ''1'' = Inr 1" "Scan_id ''abc123'' = Inl ErrScan"
  using Atoi_samples by (simp_all add: Scan_id_def Atoi_def)

section \<open>The query handler and the parsed identifier\<close>

lemma query_Get_id: "query_Get [(''id'', v)] ''id'' = v"
  by (simp add: query_Get_def)

lemma getDataFromCacheHandler_Inr:
  "Atoi (query_Get q ''id'') = Inr i \<Longrightarrow>
   getDataFromCacheHandler marshal data q =
     (case get data (Itoa i) of
        None \<Rightarrow> StatusNotFound
      | Some message \<Rightarrow>
          (case marshal message of
             Inl err \<Rightarrow> StatusInternalServerError
           | Inr jsonData \<Rightarrow> StatusOK jsonData))"
  by (simp add: getDataFromCacheHandler_def)


text \<open>
  C10. The handler consults the cache under the decimal rendering of the integer its
  parameter parses to: two requests whose \<^verbatim>\<open>id\<close> parameters parse to the same integer
  (\<^verbatim>\<open>007\<close>, \<^verbatim>\<open>+7\<close> and \<^verbatim>\<open>7\<close>, say) get the same response from the same cache.
\<close>

theorem C10_lookup_by_parsed_integer:
  assumes "Atoi (query_Get q ''id'') = Inr i" and "Atoi (query_Get q' ''id'') = Inr i"
  shows "getDataFromCacheHandler marshal data q = getDataFromCacheHandler marshal data q' \<and>
         getDataFromCacheHandler marshal data q =
           (case get data (Itoa i) of
              None \<Rightarrow> StatusNotFound
            | Some message \<Rightarrow>
                (case marshal message of
                   Inl err \<Rightarrow> StatusInternalServerError
                 | Inr jsonData \<Rightarrow> StatusOK jsonData))"
  using assms by (simp add: getDataFromCacheHandler_Inr)

theorem C10_witness:
  "Atoi (query_Get [(''id'', ''007'')] ''id'') = Inr 7 \<and>
   Atoi (query_Get [(''id'', ''+7'')] ''id'') = Inr 7 \<and>
   Atoi (query_Get [(''id'', ''7'')] ''id'') = Inr 7 \<and>
   getDataFromCacheHandler json_Marshal_sample [''7'' \<mapsto> order ''7''] [(''id'', ''007'')] =
     getDataFromCacheHandler json_Marshal_sample [''7'' \<mapsto> order ''7''] [(''id'', ''+7'')] \<and>
   getDataFromCacheHandler json_Marshal_sample [''7'' \<mapsto> order ''7''] [(''id'', ''007'')] =
     getDataFromCacheHandler json_Marshal_sample [''7'' \<mapsto> order ''7''] [(''id'', ''7'')] \<and>
   getDataFromCacheHandler json_Marshal_sample [''7'' \<mapsto> order ''7''] [(''id'', ''007'')] =
     StatusOK (order_json ''7'')"
proof -
  let ?data = "[''7'' \<mapsto> order ''7'']"
  have a: "Atoi (query_Get [(''id'', ''007'')] ''id'') = Inr 7"
    and b: "Atoi (query_Get [(''id'', ''+7'')] ''id'') = Inr 7"
    and c: "Atoi (query_Get [(''id'', ''7'')] ''id'') = Inr 7"
    by (simp_all add: query_Get_id Atoi_samples)
  have found: "(case get ?data (Itoa 7) of
        None \<Rightarrow> StatusNotFound
      | Some message \<Rightarrow>
          (case json_Marshal_sample message of
             Inl err \<Rightarrow> StatusInternalServerError
           | Inr jsonData \<Rightarrow> StatusOK jsonData)) = StatusOK (order_json ''7'')"
    by (simp add: get_def Itoa_samples json_Marshal_sample_order)
  note ab = C10_lookup_by_parsed_integer [OF a b, of json_Marshal_sample ?data]
    and ac = C10_lookup_by_parsed_integer [OF a c, of json_Marshal_sample ?data]
  have e1: "getDataFromCacheHandler json_Marshal_sample ?data [(''id'', ''007'')] =
      getDataFromCacheHandler json_Marshal_sample ?data [(''id'', ''+7'')]"
    using ab by (rule conjunct1)
  have e2: "getDataFromCacheHandler json_Marshal_sample ?data [(''id'', ''007'')] =
      getDataFromCacheHandler json_Marshal_sample ?data [(''id'', ''7'')]"
    using ac by (rule conjunct1)
  have e3: "getDataFromCacheHandler json_Marshal_sample ?data [(''id'', ''007'')] =
      StatusOK (order_json ''7'')"
    using ab [THEN conjunct2] found by (rule trans)
  show ?thesis by (intro conjI) (rule a b c e1 e2 e3)+
qed

section \<open>Recovery followed by a lookup\<close>

lemma restoreCacheFromDB_all_decoded:
  assumes "\<forall>r \<in> set (messages s). \<not> isl (decode_row u r)"
  shows "restoreCacheFromDB u True s =
           (s\<lparr>cache := fst (restore_rows u (messages s) (cache s)),
              logged := logged s @ [Cache_restored_from_DB]\<rparr>, None)"
  by (simp add: restoreCacheFromDB_def restore_rows_all_decoded [OF assms])

lemma restoreCacheFromDB_query_failed: "restoreCacheFromDB u False s = (s, Some ErrQuery)"
  by (simp add: restoreCacheFromDB_def)

lemma sample_state_sel:
  "cache (sample_state table) = Map.empty" "messages (sample_state table) = table"
  "logged (sample_state table) = []"
  by (simp_all add: sample_state_def)

lemma decode_row_samples:
  "decode_row json_Unmarshal_sample (''7'', order_json ''7'') = Inr (''7'', order ''7'')"
  "decode_row json_Unmarshal_sample (''1'', order_json ''order-1'') = Inr (''1'', order ''order-1'')"
  "decode_row json_Unmarshal_sample (''1'', ''not json'') = Inl ErrUnmarshal"
  "decode_row json_Unmarshal_sample (''abc123'', order_json ''abc123'') = Inl ErrScan"
  by (simp_all add: decode_row_def Scan_id_samples Itoa_samples json_Unmarshal_sample_order_json
      json_Unmarshal_sample_not_json)




section \<open>Recovery with a failing row, and the order of the rows\<close>

text \<open>
  C2. As stated the claim fails: a row that does not convert or decode is not skipped, the
  loader returns its error at that row. What holds: the rows enumerated before the first
  such row are loaded, a later one of them replacing an earlier one under the same key,
  and each of them with an integer identifier of its own is retrievable; the failing row
  and every row after it are not loaded, and the error is returned to the caller.
\<close>

theorem C2_recovery_stops_at_first_failure:
  assumes rows: "messages s = pre @ bad # rest"
    and ok: "\<forall>r \<in> set pre. \<not> isl (decode_row unmarshal r)"
    and bad: "decode_row unmarshal bad = Inl err"
  shows "restoreCacheFromDB unmarshal True s =
           (s\<lparr>cache := cache s ++ map_of (rev (map (projr \<circ> decode_row unmarshal) pre))\<rparr>,
            Some err) \<and>
         (distinct (map (Scan_id \<circ> fst) pre) \<longrightarrow>
            (\<forall>(src, js) \<in> set pre. \<forall>i message.
               Scan_id src = Inr i \<and> unmarshal js = Inr message \<longrightarrow>
               get (cache (fst (restoreCacheFromDB unmarshal True s))) (Itoa i) = Some message))"
proof -
  have loaded: "restore_rows unmarshal pre (cache s) =
      (cache s ++ map_of (rev (map (projr \<circ> decode_row unmarshal) pre)), None)"
    using ok by (rule restore_rows_all_decoded)
  have "restore_rows unmarshal (messages s) (cache s) =
      (fst (restore_rows unmarshal pre (cache s)), Some err)"
    unfolding rows using ok bad by (rule restore_rows_stops)
  then have result: "restoreCacheFromDB unmarshal True s =
      (s\<lparr>cache := cache s ++ map_of (rev (map (projr \<circ> decode_row unmarshal) pre))\<rparr>, Some err)"
    by (simp add: restoreCacheFromDB_def loaded)
  have "get (cache (fst (restoreCacheFromDB unmarshal True s))) (Itoa i) = Some message"
    if "distinct (map (Scan_id \<circ> fst) pre)" "(src, js) \<in> set pre" "Scan_id src = Inr i"
      "unmarshal js = Inr message" for src js i message
    using restore_rows_retrieves [OF ok that, of "cache s"] by (simp add: result loaded get_def)
  with result show ?thesis by blast
qed

theorem C2_witness:
  "messages (sample_state [(''7'', order_json ''7''), (''1'', ''not json''), (''1'', order_json ''order-1'')]) =
     [(''7'', order_json ''7'')] @ (''1'', ''not json'') # [(''1'', order_json ''order-1'')] \<and>
   \<not> isl (decode_row json_Unmarshal_sample (''7'', order_json ''7'')) \<and>
   decode_row json_Unmarshal_sample (''1'', ''not json'') = Inl ErrUnmarshal \<and>
   distinct (map (Scan_id \<circ> fst) [(''7'', order_json ''7'')]) \<and>
   Scan_id ''7'' = Inr 7 \<and> json_Unmarshal_sample (order_json ''7'') = Inr (order ''7'') \<and>
   snd (restoreCacheFromDB json_Unmarshal_sample True
     (sample_state [(''7'', order_json ''7''), (''1'', ''not json''), (''1'', order_json ''order-1'')])) =
     Some ErrUnmarshal \<and>
   get (cache (fst (restoreCacheFromDB json_Unmarshal_sample True
     (sample_state [(''7'', order_json ''7''), (''1'', ''not json''), (''1'', order_json ''order-1'')]))))
     (Itoa 7) = Some (order ''7'')"
proof -
  let ?s = "sample_state [(''7'', order_json ''7''), (''1'', ''not json''), (''1'', order_json ''order-1'')]"
  have rows: "messages ?s =
      [(''7'', order_json ''7'')] @ (''1'', ''not json'') # [(''1'', order_json ''order-1'')]"
    by (simp add: sample_state_sel)
  have ok: "\<forall>r \<in> set [(''7'', order_json ''7'')]. \<not> isl (decode_row json_Unmarshal_sample r)"
    by (simp add: decode_row_samples)
  note bad = decode_row_samples(3)
  have ids: "distinct (map (Scan_id \<circ> fst) [(''7'', order_json ''7'')])" by simp
  note scan = Scan_id_samples(1) and dec = json_Unmarshal_sample_order_json(1)
  note stops = C2_recovery_stops_at_first_failure [OF rows ok bad]
  from stops have "snd (restoreCacheFromDB json_Unmarshal_sample True ?s) = Some ErrUnmarshal"
    by simp
  moreover from stops ids scan dec
  have "get (cache (fst (restoreCacheFromDB json_Unmarshal_sample True ?s))) (Itoa 7) =
      Some (order ''7'')"
    by fastforce
  moreover have "\<not> isl (decode_row json_Unmarshal_sample (''7'', order_json ''7''))"
    by (simp add: decode_row_samples)
  ultimately show ?thesis using rows bad ids scan dec by blast
qed

theorem C2_counterexample:
  "decode_row json_Unmarshal_sample (''7'', order_json ''7'') = Inr (''7'', order ''7'') \<and>
   restoreCacheFromDB json_Unmarshal_sample True
     (sample_state [(''1'', ''not json''), (''7'', order_json ''7'')]) =
     (sample_state [(''1'', ''not json''), (''7'', order_json ''7'')], Some ErrUnmarshal) \<and>
   getDataFromCacheHandler json_Marshal_sample
     (cache (fst (restoreCacheFromDB json_Unmarshal_sample True
        (sample_state [(''1'', ''not json''), (''7'', order_json ''7'')])))) [(''id'', ''7'')] =
     StatusNotFound"
  by (simp add: restoreCacheFromDB_def sample_state_sel restore_rows_Cons decode_row_samples
      getDataFromCacheHandler_Inr [where i = 7] query_Get_id Atoi_samples get_def
      del: restore_rows.simps)

text \<open>
  C7. As stated the claim fails: with a row that does not decode, the rows loaded are those
  enumerated before it, so the order decides the cache even when every identifier is
  unique. What holds: when every row converts and decodes and the integer identifiers are
  pairwise distinct, every enumeration order of the rows gives the same cache and no
  error.
\<close>

theorem C7_recovery_order_independent:
  assumes perm: "mset rows' = mset rows"
    and ok: "\<forall>r \<in> set rows. \<not> isl (decode_row unmarshal r)"
    and ids: "distinct (map (Scan_id \<circ> fst) rows)"
  shows "cache (fst (restoreCacheFromDB unmarshal True (s\<lparr>messages := rows'\<rparr>))) =
           cache (fst (restoreCacheFromDB unmarshal True (s\<lparr>messages := rows\<rparr>))) \<and>
         snd (restoreCacheFromDB unmarshal True (s\<lparr>messages := rows'\<rparr>)) = None \<and>
         snd (restoreCacheFromDB unmarshal True (s\<lparr>messages := rows\<rparr>)) = None"
proof -
  from perm have "set rows' = set rows" by (rule mset_eq_setD)
  with ok have ok': "\<forall>r \<in> set rows'. \<not> isl (decode_row unmarshal r)" by simp
  have "restore_rows unmarshal rows' (cache s) = restore_rows unmarshal rows (cache s)"
    using perm ok ids by (rule restore_rows_permutation)
  then show ?thesis
    using ok ok' by (simp add: restoreCacheFromDB_all_decoded)
qed

theorem C7_witness:
  "mset [(''1'', order_json ''order-1''), (''7'', order_json ''7'')] =
     mset [(''7'', order_json ''7''), (''1'', order_json ''order-1'')] \<and>
   \<not> isl (decode_row json_Unmarshal_sample (''7'', order_json ''7'')) \<and>
   \<not> isl (decode_row json_Unmarshal_sample (''1'', order_json ''order-1'')) \<and>
   distinct (map (Scan_id \<circ> fst) [(''7'', order_json ''7''), (''1'', order_json ''order-1'')]) \<and>
   cache (fst (restoreCacheFromDB json_Unmarshal_sample True
     (sample_state []\<lparr>messages := [(''1'', order_json ''order-1''), (''7'', order_json ''7'')]\<rparr>))) =
   cache (fst (restoreCacheFromDB json_Unmarshal_sample True
     (sample_state []\<lparr>messages := [(''7'', order_json ''7''), (''1'', order_json ''order-1'')]\<rparr>)))"
proof -
  have perm: "mset [(''1'', order_json ''order-1''), (''7'', order_json ''7'')] =
      mset [(''7'', order_json ''7''), (''1'', order_json ''order-1'')]"
    by (simp add: add.commute)
  have ok: "\<forall>r \<in> set [(''7'', order_json ''7''), (''1'', order_json ''order-1'')].
      \<not> isl (decode_row json_Unmarshal_sample r)"
    by (simp add: decode_row_samples)
  have ids: "distinct (map (Scan_id \<circ> fst) [(''7'', order_json ''7''), (''1'', order_json ''order-1'')])"
    by (simp add: Scan_id_samples)
  have rows_ok: "\<not> isl (decode_row json_Unmarshal_sample (''7'', order_json ''7''))"
      "\<not> isl (decode_row json_Unmarshal_sample (''1'', order_json ''order-1''))"
    by (simp_all add: decode_row_samples)
  from C7_recovery_order_independent [OF perm ok ids, of "sample_state []"] perm rows_ok ids
  show ?thesis by blast
qed

theorem C7_counterexample:
  "mset [(''7'', order_json ''7''), (''1'', ''not json'')] =
     mset [(''1'', ''not json''), (''7'', order_json ''7'')] \<and>
   distinct (map fst [(''1'', ''not json''), (''7'', order_json ''7'')]) \<and>
   get (cache (fst (restoreCacheFromDB json_Unmarshal_sample True
     (sample_state [(''7'', order_json ''7''), (''1'', ''not json'')])))) ''7'' = Some (order ''7'') \<and>
   get (cache (fst (restoreCacheFromDB json_Unmarshal_sample True
     (sample_state [(''1'', ''not json''), (''7'', order_json ''7'')])))) ''7'' = None"
  by (simp add: restoreCacheFromDB_def sample_state_sel restore_rows_Cons decode_row_samples
      get_def add.commute del: restore_rows.simps)

section \<open>The ingestion callback\<close>

lemma subscribe_callback_cache:
  "unmarshal payload = Inr message \<Longrightarrow>
   cache (subscribe_callback unmarshal marshal exec_ok payload s) = put message (cache s)"
  by (simp add: subscribe_callback_def Let_def split: prod.splits option.splits)

lemma subscribe_callback_undecoded:
  "unmarshal payload = Inl err \<Longrightarrow>
   subscribe_callback unmarshal marshal exec_ok payload s =
     s\<lparr>logged := logged s @ [Failed_to_unmarshal_message err]\<rparr>"
  by (simp add: subscribe_callback_def)

lemma subscribe_callback_saved:
  "unmarshal payload = Inr message \<Longrightarrow> marshal message = Inr out \<Longrightarrow>
   subscribe_callback unmarshal marshal True payload s =
     s\<lparr>cache := put message (cache s), messages := messages s @ [(OrderUID message, out)]\<rparr>"
  by (simp add: subscribe_callback_def saveMessageToDB_def)


text \<open>
  C4. As stated the claim fails: the callback does not store the inbound payload, it stores
  what \<^verbatim>\<open>json.Marshal\<close> makes of the decoded record, so two payloads that decode to the
  same record are persisted as the same text. What holds: for a payload that decodes, when
  the insert succeeds the row appended to the table is the record's order identifier with
  the encoding of the decoded record; it is the inbound payload exactly when the payload
  is that encoding.
\<close>

theorem C4_persisted_row_is_reencoding:
  assumes "unmarshal payload = Inr message" and "marshal message = Inr out"
  shows "messages (subscribe_callback unmarshal marshal True payload s) =
           messages s @ [(OrderUID message, out)] \<and>
         (messages (subscribe_callback unmarshal marshal True payload s) =
            messages s @ [(OrderUID message, payload)] \<longleftrightarrow> out = payload)"
  using assms by (simp add: subscribe_callback_saved)

theorem C4_witness:
  "json_Unmarshal_sample (order_json ''7'') = Inr (order ''7'') \<and>
   json_Marshal_sample (order ''7'') = Inr (order_json ''7'') \<and>
   messages (subscribe_callback json_Unmarshal_sample json_Marshal_sample True (order_json ''7'')
     (sample_state [])) = [(''7'', order_json ''7'')]"
  using C4_persisted_row_is_reencoding [where unmarshal = json_Unmarshal_sample
      and marshal = json_Marshal_sample and s = "sample_state []",
      OF json_Unmarshal_sample_order_json(1) json_Marshal_sample_order(2)]
    json_Unmarshal_sample_order_json(1) json_Marshal_sample_order(2)
  by (simp add: sample_state_sel OrderUID_order)

theorem C4_counterexample:
  "json_Unmarshal_sample ''{}'' = Inr (order []) \<and>
   messages (subscribe_callback json_Unmarshal_sample json_Marshal_sample True ''{}''
     (sample_state [])) = [([], order_json [])] \<and>
   order_json [] \<noteq> ''{}''"
  by (simp add: subscribe_callback_saved [where unmarshal = json_Unmarshal_sample
      and marshal = json_Marshal_sample and message = "order []" and out = "order_json []"]
      json_Unmarshal_sample_empty_object json_Marshal_sample_order sample_state_sel
      OrderUID_order order_json_other)

lemma restore_rows_empty_key: "fst (restore_rows u rows data) [] = data []"
proof (induction rows arbitrary: data)
  case Nil
  show ?case by simp
next
  case (Cons r rows)
  show ?case
  proof (cases "decode_row u r")
    case (Inl err)
    then show ?thesis by (simp add: restore_rows_Cons del: restore_rows.simps)
  next
    case (Inr kv)
    then have "fst kv \<noteq> []" by (auto simp: decode_row_Inr Itoa_not_Nil)
    then have upd: "(data(fst kv \<mapsto> snd kv)) [] = data []" by simp
    have "fst (restore_rows u (r # rows) data) [] =
        fst (restore_rows u rows (data(fst kv \<mapsto> snd kv))) []"
      by (simp add: restore_rows_Cons Inr del: restore_rows.simps)
    also have "\<dots> = (data(fst kv \<mapsto> snd kv)) []" by (rule Cons.IH)
    also note upd
    finally show ?thesis .
  qed
qed

text \<open>
  C9. As stated the claim fails: nothing in the program looks at the order identifier of a
  decoded record, and the callback stores the record of the payload \<^verbatim>\<open>{}\<close> under the
  empty key. What holds: recovery never stores under the empty key, its keys being decimal
  renderings of integers; the callback stores a decoded record under its own order
  identifier, so the entry under the empty key changes exactly when that identifier is
  empty.
\<close>

theorem C9_empty_key:
  "get (cache (fst (restoreCacheFromDB unmarshal query_ok s))) [] = get (cache s) [] \<and>
   get (cache (subscribe_callback unmarshal marshal exec_ok payload s)) [] =
     (case unmarshal payload of
        Inl err \<Rightarrow> get (cache s) []
      | Inr message \<Rightarrow> if OrderUID message = [] then Some message else get (cache s) [])"
proof
  have "fst (restore_rows unmarshal (messages s) (cache s)) [] = cache s []"
    by (rule restore_rows_empty_key)
  then show "get (cache (fst (restoreCacheFromDB unmarshal query_ok s))) [] = get (cache s) []"
    by (auto simp: restoreCacheFromDB_def get_def split: prod.splits option.splits)
next
  show "get (cache (subscribe_callback unmarshal marshal exec_ok payload s)) [] =
     (case unmarshal payload of
        Inl err \<Rightarrow> get (cache s) []
      | Inr message \<Rightarrow> if OrderUID message = [] then Some message else get (cache s) [])"
  proof (cases "unmarshal payload")
    case (Inl err)
    then show ?thesis by (simp add: subscribe_callback_undecoded)
  next
    case (Inr message)
    then show ?thesis
      using get_put_same [of message "cache s"] get_put_other [of "[]" message "cache s"]
      by (auto simp: subscribe_callback_cache)
  qed
qed

theorem C9_counterexample:
  "json_Unmarshal_sample ''{}'' = Inr (order []) \<and> OrderUID (order []) = [] \<and>
   get (cache (subscribe_callback json_Unmarshal_sample json_Marshal_sample True ''{}''
     (sample_state []))) [] = Some (order [])"
  by (simp add: subscribe_callback_cache [where unmarshal = json_Unmarshal_sample
        and message = "order []"] json_Unmarshal_sample_empty_object get_def put_def
      OrderUID_order)

section \<open>The order of the start-up steps\<close>

lemma precedes_from_snoc:
  "precedes_from seen A B (tr @ [e]) =
     (precedes_from seen A B tr \<and> (\<not> B e \<or> seen \<or> (\<exists>x \<in> set tr. A x)))"
  by (induction tr arbitrary: seen) auto

lemma precedes_Nil: "precedes A B []"
  by (simp add: precedes_def)

lemma precedes_snoc:
  "precedes A B (tr @ [e]) = (precedes A B tr \<and> (\<not> B e \<or> (\<exists>x \<in> set tr. A x)))"
  by (simp add: precedes_def precedes_from_snoc)

text \<open>The same, by positions in the trace.\<close>

lemma precedes_from_nth:
  "precedes_from seen A B tr \<longleftrightarrow>
     (\<forall>i < length tr. B (tr ! i) \<longrightarrow> seen \<or> (\<exists>j < i. A (tr ! j)))"
proof (induction tr arbitrary: seen)
  case Nil
  show ?case by simp
next
  case (Cons e tr)
  have "(\<forall>i < length (e # tr). B ((e # tr) ! i) \<longrightarrow> seen \<or> (\<exists>j < i. A ((e # tr) ! j))) \<longleftrightarrow>
      (B e \<longrightarrow> seen) \<and>
      (\<forall>i < length tr. B (tr ! i) \<longrightarrow> seen \<or> (\<exists>j < Suc i. A ((e # tr) ! j)))"
    by (simp add: All_less_Suc2)
  also have "\<dots> \<longleftrightarrow>
      (B e \<longrightarrow> seen) \<and>
      (\<forall>i < length tr. B (tr ! i) \<longrightarrow> (seen \<or> A e) \<or> (\<exists>j < i. A (tr ! j)))"
    by (simp add: Ex_less_Suc2 disj_assoc)
  finally show ?case by (auto simp: Cons.IH)
qed

lemma precedes_nth:
  "precedes A B tr \<longleftrightarrow> (\<forall>i < length tr. B (tr ! i) \<longrightarrow> (\<exists>j < i. A (tr ! j)))"
  by (simp add: precedes_def precedes_from_nth)

lemma step_keeps_order:
  assumes "step unmarshal marshal p p'"
    and "main_at p \<noteq> Main_connectToDB \<longrightarrow> (\<exists>x \<in> set (trace p). is_DB_connected x)"
    and "sub_at p \<noteq> Sub_not_started \<longrightarrow> main_at p \<noteq> Main_connectToDB"
    and "sub_at p = Sub_Subscribe \<or> sub_at p = Sub_select \<longrightarrow>
           (\<exists>x \<in> set (trace p). is_Recovery_attempted x)"
    and "sub_at p = Sub_select \<longrightarrow> (\<exists>x \<in> set (trace p). is_Subscribed x)"
    and "precedes is_DB_connected is_Recovery_attempted (trace p)"
    and "precedes is_Recovery_attempted is_Subscribed (trace p)"
    and "precedes is_Subscribed is_Consumed (trace p)"
    and "precedes is_DB_connected is_Served (trace p)"
  shows "(main_at p' \<noteq> Main_connectToDB \<longrightarrow> (\<exists>x \<in> set (trace p'). is_DB_connected x)) \<and>
         (sub_at p' \<noteq> Sub_not_started \<longrightarrow> main_at p' \<noteq> Main_connectToDB) \<and>
         (sub_at p' = Sub_Subscribe \<or> sub_at p' = Sub_select \<longrightarrow>
            (\<exists>x \<in> set (trace p'). is_Recovery_attempted x)) \<and>
         (sub_at p' = Sub_select \<longrightarrow> (\<exists>x \<in> set (trace p'). is_Subscribed x)) \<and>
         precedes is_DB_connected is_Recovery_attempted (trace p') \<and>
         precedes is_Recovery_attempted is_Subscribed (trace p') \<and>
         precedes is_Subscribed is_Consumed (trace p') \<and>
         precedes is_DB_connected is_Served (trace p')"
  using assms
  by (induction rule: step.induct) (auto simp: precedes_snoc fatal_def)

lemma reachable_order:
  assumes "reachable unmarshal marshal table p"
  shows "(main_at p \<noteq> Main_connectToDB \<longrightarrow> (\<exists>x \<in> set (trace p). is_DB_connected x)) \<and>
         (sub_at p \<noteq> Sub_not_started \<longrightarrow> main_at p \<noteq> Main_connectToDB) \<and>
         (sub_at p = Sub_Subscribe \<or> sub_at p = Sub_select \<longrightarrow>
            (\<exists>x \<in> set (trace p). is_Recovery_attempted x)) \<and>
         (sub_at p = Sub_select \<longrightarrow> (\<exists>x \<in> set (trace p). is_Subscribed x)) \<and>
         precedes is_DB_connected is_Recovery_attempted (trace p) \<and>
         precedes is_Recovery_attempted is_Subscribed (trace p) \<and>
         precedes is_Subscribed is_Consumed (trace p) \<and>
         precedes is_DB_connected is_Served (trace p)"
  using assms
proof (induction rule: reachable.induct)
  case at_start
  show ?case by (simp add: initial_def precedes_Nil)
next
  case (after_step p p')
  from after_step.hyps(2) after_step.IH show ?case
    by (intro step_keeps_order) blast+
qed

lemma getDataFromCacheHandler_samples:
  "getDataFromCacheHandler json_Marshal_sample Map.empty [(''id'', ''7'')] = StatusNotFound"
  "getDataFromCacheHandler json_Marshal_sample [''7'' \<mapsto> order ''7''] [(''id'', ''7'')] =
     StatusOK (order_json ''7'')"
  by (simp_all add: getDataFromCacheHandler_Inr [where i = 7] query_Get_id Atoi_samples
      Itoa_samples get_def json_Marshal_sample_order)

lemma restoreCacheFromDB_sample:
  "restoreCacheFromDB json_Unmarshal_sample True
     \<lparr>cache = Map.empty, messages = [(''7'', order_json ''7'')], logged = l\<rparr> =
     (\<lparr>cache = [''7'' \<mapsto> order ''7''], messages = [(''7'', order_json ''7'')],
       logged = l @ [Cache_restored_from_DB]\<rparr>, None)"
  by (simp add: restoreCacheFromDB_def restore_rows_Cons decode_row_samples
      del: restore_rows.simps(2))

lemma reachable_served_before_recovery:
  "reachable json_Unmarshal_sample json_Marshal_sample [(''7'', order_json ''7'')]
     served_before_recovery"
proof -
  let ?reach = "reachable json_Unmarshal_sample json_Marshal_sample [(''7'', order_json ''7'')]"
  let ?step = "step json_Unmarshal_sample json_Marshal_sample"
  let ?st = "\<lparr>cache = Map.empty, messages = [(''7'', order_json ''7'')], logged = []\<rparr>"
  let ?st' = "\<lparr>cache = Map.empty, messages = [(''7'', order_json ''7'')],
      logged = [Starting_HTTP_server]\<rparr>"
  let ?p0 = "\<lparr>st = ?st, main_at = Main_connectToDB, sub_at = Sub_not_started,
      exited = False, saving = None, trace = []\<rparr>"
  let ?p1 = "\<lparr>st = ?st, main_at = Main_go_subscribeToNATS, sub_at = Sub_not_started,
      exited = False, saving = None, trace = [DB_connected]\<rparr>"
  let ?p2 = "\<lparr>st = ?st, main_at = Main_HandleFunc, sub_at = Sub_nats_Connect,
      exited = False, saving = None, trace = [DB_connected]\<rparr>"
  let ?p3 = "\<lparr>st = ?st', main_at = Main_ListenAndServe, sub_at = Sub_nats_Connect,
      exited = False, saving = None, trace = [DB_connected]\<rparr>"
  let ?p4 = "\<lparr>st = ?st', main_at = Main_serving, sub_at = Sub_nats_Connect,
      exited = False, saving = None, trace = [DB_connected]\<rparr>"
  have "?reach ?p0"
    using at_start [of json_Unmarshal_sample json_Marshal_sample "[(''7'', order_json ''7'')]"]
    by (simp add: initial_def)
  moreover have "?step ?p0 ?p1"
    using connectToDB_ok [of ?p0 json_Unmarshal_sample json_Marshal_sample] by simp
  ultimately have "?reach ?p1" by (rule after_step)
  moreover have "?step ?p1 ?p2"
    using go_subscribeToNATS [of ?p1 json_Unmarshal_sample json_Marshal_sample] by simp
  ultimately have "?reach ?p2" by (rule after_step)
  moreover have "?step ?p2 ?p3"
    using HandleFunc [of ?p2 json_Unmarshal_sample json_Marshal_sample]
    by (simp add: log_line_def)
  ultimately have "?reach ?p3" by (rule after_step)
  moreover have "?step ?p3 ?p4"
    using ListenAndServe_ok [of ?p3 json_Unmarshal_sample json_Marshal_sample] by simp
  ultimately have "?reach ?p4" by (rule after_step)
  moreover have "?step ?p4 served_before_recovery"
    using serve [of ?p4 json_Unmarshal_sample json_Marshal_sample "[(''id'', ''7'')]"]
    by (simp add: served_before_recovery_def getDataFromCacheHandler_samples)
  ultimately show ?thesis by (rule after_step)
qed

lemma reachable_served_after_recovery:
  "reachable json_Unmarshal_sample json_Marshal_sample [(''7'', order_json ''7'')]
     served_after_recovery"
proof -
  let ?reach = "reachable json_Unmarshal_sample json_Marshal_sample [(''7'', order_json ''7'')]"
  let ?step = "step json_Unmarshal_sample json_Marshal_sample"
  let ?tr = "[DB_connected, Served [(''id'', ''7'')] StatusNotFound]"
  let ?st = "\<lparr>cache = Map.empty, messages = [(''7'', order_json ''7'')],
      logged = [Starting_HTTP_server]\<rparr>"
  let ?st' = "\<lparr>cache = [''7'' \<mapsto> order ''7''], messages = [(''7'', order_json ''7'')],
      logged = [Starting_HTTP_server, Cache_restored_from_DB]\<rparr>"
  let ?st'' = "\<lparr>cache = [''7'' \<mapsto> order ''7''], messages = [(''7'', order_json ''7'')],
      logged = [Starting_HTTP_server, Cache_restored_from_DB, Subscribed_to_channel]\<rparr>"
  let ?p5 = "\<lparr>st = ?st, main_at = Main_serving, sub_at = Sub_nats_Connect,
      exited = False, saving = None, trace = ?tr\<rparr>"
  let ?p6 = "\<lparr>st = ?st, main_at = Main_serving, sub_at = Sub_restoreCacheFromDB,
      exited = False, saving = None, trace = ?tr\<rparr>"
  let ?p7 = "\<lparr>st = ?st', main_at = Main_serving, sub_at = Sub_Subscribe,
      exited = False, saving = None, trace = ?tr @ [Recovery_attempted None]\<rparr>"
  let ?p8 = "\<lparr>st = ?st'', main_at = Main_serving, sub_at = Sub_select,
      exited = False, saving = None, trace = ?tr @ [Recovery_attempted None, Subscribed]\<rparr>"
  have "?reach ?p5"
    using reachable_served_before_recovery by (simp add: served_before_recovery_def)
  moreover have "?step ?p5 ?p6"
    using nats_Connect_ok [of ?p5 json_Unmarshal_sample json_Marshal_sample] by simp
  ultimately have "?reach ?p6" by (rule after_step)
  moreover have "?step ?p6 ?p7"
    using restore [of ?p6 json_Unmarshal_sample True ?st' None json_Marshal_sample]
    by (simp add: restoreCacheFromDB_sample)
  ultimately have "?reach ?p7" by (rule after_step)
  moreover have "?step ?p7 ?p8"
    using Subscribe_ok [of ?p7 json_Unmarshal_sample json_Marshal_sample]
    by (simp add: log_line_def)
  ultimately have "?reach ?p8" by (rule after_step)
  moreover have "?step ?p8 served_after_recovery"
    using serve [of ?p8 json_Unmarshal_sample json_Marshal_sample "[(''id'', ''7'')]"]
    by (simp add: served_after_recovery_def getDataFromCacheHandler_samples)
  ultimately show ?thesis by (rule after_step)
qed

text \<open>
  C3. As stated the claim fails: \<^verbatim>\<open>main\<close> starts \<^verbatim>\<open>subscribeToNATS\<close>, which holds the
  recovery, with a \<^verbatim>\<open>go\<close> statement and goes on to serve, so a lookup can be answered
  from the empty cache before recovery has been attempted. What holds in every run: the
  database connection comes before recovery and before any answer to a lookup, recovery is
  attempted before the subscription, and the subscription comes before any message is
  consumed.
\<close>

theorem C3_startup_order:
  assumes "reachable unmarshal marshal table p"
  shows "precedes is_DB_connected is_Recovery_attempted (trace p) \<and>
         precedes is_Recovery_attempted is_Subscribed (trace p) \<and>
         precedes is_Subscribed is_Consumed (trace p) \<and>
         precedes is_DB_connected is_Served (trace p)"
  using reachable_order [OF assms] by blast

theorem C3_witness:
  "reachable json_Unmarshal_sample json_Marshal_sample [(''7'', order_json ''7'')]
     served_after_recovery \<and>
   trace served_after_recovery =
     [DB_connected, Served [(''id'', ''7'')] StatusNotFound, Recovery_attempted None,
      Subscribed, Served [(''id'', ''7'')] (StatusOK (order_json ''7''))] \<and>
   precedes is_DB_connected is_Recovery_attempted (trace served_after_recovery) \<and>
   precedes is_Recovery_attempted is_Subscribed (trace served_after_recovery) \<and>
   precedes is_Subscribed is_Consumed (trace served_after_recovery) \<and>
   precedes is_DB_connected is_Served (trace served_after_recovery)"
  using C3_startup_order [OF reachable_served_after_recovery] reachable_served_after_recovery
  by (simp add: served_after_recovery_def)

theorem C3_counterexample:
  "reachable json_Unmarshal_sample json_Marshal_sample [(''7'', order_json ''7'')]
     served_before_recovery \<and>
   trace served_before_recovery = [DB_connected, Served [(''id'', ''7'')] StatusNotFound] \<and>
   \<not> precedes is_Recovery_attempted is_Served (trace served_before_recovery)"
  using reachable_served_before_recovery
  by (simp add: served_before_recovery_def precedes_def)

section \<open>What a lookup can answer\<close>

lemma decoded_cache_empty: "decoded_cache unmarshal Map.empty"
  by (simp add: decoded_cache_def)

lemma decoded_cache_upd:
  "decoded_cache unmarshal data \<Longrightarrow> unmarshal js = Inr message \<Longrightarrow>
   decoded_cache unmarshal (data(key \<mapsto> message))"
  by (auto simp: decoded_cache_def)

lemma restore_rows_decoded:
  "decoded_cache unmarshal data \<Longrightarrow> decoded_cache unmarshal (fst (restore_rows unmarshal rows data))"
proof (induction rows arbitrary: data)
  case Nil
  then show ?case by simp
next
  case (Cons r rows)
  show ?case
  proof (cases "decode_row unmarshal r")
    case (Inl err)
    with Cons.prems show ?thesis by (simp add: restore_rows_Cons del: restore_rows.simps)
  next
    case (Inr kv)
    then obtain js where "unmarshal js = Inr (snd kv)" by (auto simp: decode_row_Inr)
    with Cons.prems have "decoded_cache unmarshal (data(fst kv \<mapsto> snd kv))"
      by (rule decoded_cache_upd)
    then have "decoded_cache unmarshal
        (fst (restore_rows unmarshal rows (data(fst kv \<mapsto> snd kv))))"
      by (rule Cons.IH)
    moreover have "restore_rows unmarshal (r # rows) data =
        restore_rows unmarshal rows (data(fst kv \<mapsto> snd kv))"
      by (simp add: restore_rows_Cons Inr del: restore_rows.simps)
    ultimately show ?thesis by (simp only:)
  qed
qed

lemma restoreCacheFromDB_decoded:
  assumes "decoded_cache unmarshal (cache s)"
    and "restoreCacheFromDB unmarshal query_ok s = (s', err)"
  shows "decoded_cache unmarshal (cache s')"
proof -
  have "cache s' = cache s \<or> cache s' = fst (restore_rows unmarshal (messages s) (cache s))"
    using assms(2) by (auto simp: restoreCacheFromDB_def split: if_splits prod.splits option.splits)
  with assms(1) restore_rows_decoded [of unmarshal "cache s" "messages s"] show ?thesis by auto
qed

lemma callback_cache_decoded:
  assumes "decoded_cache unmarshal (cache s)"
  shows "decoded_cache unmarshal (cache (fst (callback_cache unmarshal payload s)))"
proof (cases "unmarshal payload")
  case (Inl err)
  with assms show ?thesis by (simp add: callback_cache_def)
next
  case (Inr message)
  with assms show ?thesis by (simp add: callback_cache_def put_def decoded_cache_upd)
qed

lemma callback_save_cache: "cache (callback_save marshal exec_ok message s) = cache s"
  by (simp add: callback_save_def split: prod.splits option.splits)

lemma getDataFromCacheHandler_fault_iff:
  "getDataFromCacheHandler marshal data q = StatusInternalServerError \<longleftrightarrow>
     (\<exists>i message. Atoi (query_Get q ''id'') = Inr i \<and> get data (Itoa i) = Some message \<and>
        isl (marshal message))"
  by (auto simp: getDataFromCacheHandler_def split: sum.splits option.splits)

lemma getDataFromCacheHandler_fault_decoded:
  assumes "decoded_cache unmarshal data"
    and "getDataFromCacheHandler marshal data q = StatusInternalServerError"
  shows "\<exists>js message. unmarshal js = Inr message \<and> isl (marshal message)"
proof -
  from assms(2) obtain i message where "get data (Itoa i) = Some message" "isl (marshal message)"
    by (auto simp: getDataFromCacheHandler_fault_iff)
  moreover with assms(1) obtain js where "unmarshal js = Inr message"
    by (auto simp: decoded_cache_def get_def)
  ultimately show ?thesis by blast
qed

lemma step_keeps_decoded:
  assumes "step unmarshal marshal p p'"
    and "decoded_cache unmarshal (cache (st p))"
    and "\<forall>q r. Served q r \<in> set (trace p) \<longrightarrow> r = StatusInternalServerError \<longrightarrow>
           (\<exists>js message. unmarshal js = Inr message \<and> isl (marshal message))"
  shows "decoded_cache unmarshal (cache (st p')) \<and>
         (\<forall>q r. Served q r \<in> set (trace p') \<longrightarrow> r = StatusInternalServerError \<longrightarrow>
            (\<exists>js message. unmarshal js = Inr message \<and> isl (marshal message)))"
  using assms
proof (induction rule: step.induct)
  case (serve p q)
  then show ?case
    using getDataFromCacheHandler_fault_decoded [of unmarshal "cache (st p)" marshal q]
    by auto
next
  case (restore p query_ok s' err)
  then show ?case using restoreCacheFromDB_decoded [of unmarshal "st p" query_ok s' err]
    by (cases err) (auto simp: log_line_def)
next
  case (deliver p payload)
  then show ?case using callback_cache_decoded [of unmarshal "st p" payload]
    by auto
next
  case (save p message exec_ok)
  then show ?case by (auto simp: callback_save_cache)
qed (auto simp: fatal_def log_line_def)

lemma reachable_decoded:
  assumes "reachable unmarshal marshal table p"
  shows "decoded_cache unmarshal (cache (st p)) \<and>
         (\<forall>q r. Served q r \<in> set (trace p) \<longrightarrow> r = StatusInternalServerError \<longrightarrow>
            (\<exists>js message. unmarshal js = Inr message \<and> isl (marshal message)))"
  using assms
proof (induction rule: reachable.induct)
  case at_start
  show ?case by (simp add: initial_def decoded_cache_empty)
next
  case (after_step p p')
  then show ?case using step_keeps_decoded [of unmarshal marshal p p'] by blast
qed

lemma decode_row_late_zone:
  "decode_row json_Unmarshal_sample (''7'', late_zone_json) = Inr (''7'', late_zone_order)"
  by (simp add: decode_row_def Scan_id_samples Itoa_samples json_Unmarshal_sample_late_zone)

lemma getDataFromCacheHandler_late_zone:
  "getDataFromCacheHandler json_Marshal_sample [''7'' \<mapsto> late_zone_order] [(''id'', ''7'')] =
     StatusInternalServerError"
  by (simp add: getDataFromCacheHandler_Inr [where i = 7] query_Get_id Atoi_samples
      Itoa_samples get_def json_Marshal_sample_late_zone)

lemma reachable_served_internal_error:
  "reachable json_Unmarshal_sample json_Marshal_sample [(''7'', late_zone_json)]
     served_internal_error"
proof -
  let ?reach = "reachable json_Unmarshal_sample json_Marshal_sample [(''7'', late_zone_json)]"
  let ?step = "step json_Unmarshal_sample json_Marshal_sample"
  let ?st = "\<lparr>cache = Map.empty, messages = [(''7'', late_zone_json)], logged = []\<rparr>"
  let ?st' = "\<lparr>cache = [''7'' \<mapsto> late_zone_order], messages = [(''7'', late_zone_json)],
      logged = [Cache_restored_from_DB]\<rparr>"
  let ?st'' = "\<lparr>cache = [''7'' \<mapsto> late_zone_order], messages = [(''7'', late_zone_json)],
      logged = [Cache_restored_from_DB, Starting_HTTP_server]\<rparr>"
  let ?p0 = "\<lparr>st = ?st, main_at = Main_connectToDB, sub_at = Sub_not_started,
      exited = False, saving = None, trace = []\<rparr>"
  let ?p1 = "\<lparr>st = ?st, main_at = Main_go_subscribeToNATS, sub_at = Sub_not_started,
      exited = False, saving = None, trace = [DB_connected]\<rparr>"
  let ?p2 = "\<lparr>st = ?st, main_at = Main_HandleFunc, sub_at = Sub_nats_Connect,
      exited = False, saving = None, trace = [DB_connected]\<rparr>"
  let ?p3 = "\<lparr>st = ?st, main_at = Main_HandleFunc, sub_at = Sub_restoreCacheFromDB,
      exited = False, saving = None, trace = [DB_connected]\<rparr>"
  let ?p4 = "\<lparr>st = ?st', main_at = Main_HandleFunc, sub_at = Sub_Subscribe,
      exited = False, saving = None, trace = [DB_connected, Recovery_attempted None]\<rparr>"
  let ?p5 = "\<lparr>st = ?st'', main_at = Main_ListenAndServe, sub_at = Sub_Subscribe,
      exited = False, saving = None, trace = [DB_connected, Recovery_attempted None]\<rparr>"
  let ?p6 = "\<lparr>st = ?st'', main_at = Main_serving, sub_at = Sub_Subscribe,
      exited = False, saving = None, trace = [DB_connected, Recovery_attempted None]\<rparr>"
  have restored: "restoreCacheFromDB json_Unmarshal_sample True ?st = (?st', None)"
    by (simp add: restoreCacheFromDB_def restore_rows_Cons decode_row_late_zone
        del: restore_rows.simps(2))
  have "?reach ?p0"
    using at_start [of json_Unmarshal_sample json_Marshal_sample "[(''7'', late_zone_json)]"]
    by (simp add: initial_def)
  moreover have "?step ?p0 ?p1"
    using connectToDB_ok [of ?p0 json_Unmarshal_sample json_Marshal_sample] by simp
  ultimately have "?reach ?p1" by (rule after_step)
  moreover have "?step ?p1 ?p2"
    using go_subscribeToNATS [of ?p1 json_Unmarshal_sample json_Marshal_sample] by simp
  ultimately have "?reach ?p2" by (rule after_step)
  moreover have "?step ?p2 ?p3"
    using nats_Connect_ok [of ?p2 json_Unmarshal_sample json_Marshal_sample] by simp
  ultimately have "?reach ?p3" by (rule after_step)
  moreover have "?step ?p3 ?p4"
    using restore [of ?p3 json_Unmarshal_sample True ?st' None json_Marshal_sample]
    by (simp add: restored)
  ultimately have "?reach ?p4" by (rule after_step)
  moreover have "?step ?p4 ?p5"
    using HandleFunc [of ?p4 json_Unmarshal_sample json_Marshal_sample]
    by (simp add: log_line_def)
  ultimately have "?reach ?p5" by (rule after_step)
  moreover have "?step ?p5 ?p6"
    using ListenAndServe_ok [of ?p5 json_Unmarshal_sample json_Marshal_sample] by simp
  ultimately have "?reach ?p6" by (rule after_step)
  moreover have "?step ?p6 served_internal_error"
    using serve [of ?p6 json_Unmarshal_sample json_Marshal_sample "[(''id'', ''7'')]"]
    by (simp add: served_internal_error_def getDataFromCacheHandler_late_zone)
  ultimately show ?thesis by (rule after_step)
qed

text \<open>
  C8. As stated the claim fails: the handler has a fourth answer, and it is given. A record
  whose \<^verbatim>\<open>date_created\<close> has the zone offset \<^verbatim>\<open>+24:00\<close> decodes, is cached, and
  \<^verbatim>\<open>json.Marshal\<close> refuses it, so the lookup is answered with an internal server error.
  What holds, in every state the process can reach: the answer is a bad request exactly
  when the \<^verbatim>\<open>id\<close> parameter is absent or does not parse as an integer, not found exactly
  when nothing is cached under the rendering of the integer, the encoding of the cached
  record when there is one, and an internal server error exactly when the encoder refuses
  the cached record, which is then a record the decoder returned; this holds of every
  answer given so far as well. No failure of the store or of a decoding is ever answered.
\<close>

theorem C8_lookup_outcomes:
  assumes "reachable unmarshal marshal table p"
  shows "(getDataFromCacheHandler marshal (cache (st p)) q = StatusBadRequest \<longleftrightarrow>
            isl (Atoi (query_Get q ''id''))) \<and>
         (getDataFromCacheHandler marshal (cache (st p)) q = StatusNotFound \<longleftrightarrow>
            (\<exists>i. Atoi (query_Get q ''id'') = Inr i \<and> get (cache (st p)) (Itoa i) = None)) \<and>
         (getDataFromCacheHandler marshal (cache (st p)) q = StatusOK out \<longleftrightarrow>
            (\<exists>i message. Atoi (query_Get q ''id'') = Inr i \<and>
               get (cache (st p)) (Itoa i) = Some message \<and> marshal message = Inr out)) \<and>
         (getDataFromCacheHandler marshal (cache (st p)) q = StatusInternalServerError \<longleftrightarrow>
            (\<exists>i message. Atoi (query_Get q ''id'') = Inr i \<and>
               get (cache (st p)) (Itoa i) = Some message \<and> isl (marshal message))) \<and>
         (getDataFromCacheHandler marshal (cache (st p)) q = StatusInternalServerError \<longrightarrow>
            (\<exists>js message. unmarshal js = Inr message \<and> isl (marshal message))) \<and>
         (\<forall>q' r. Served q' r \<in> set (trace p) \<longrightarrow> r = StatusInternalServerError \<longrightarrow>
            (\<exists>js message. unmarshal js = Inr message \<and> isl (marshal message)))"
proof -
  note inv = reachable_decoded [OF assms]
  have bad: "getDataFromCacheHandler marshal (cache (st p)) q = StatusBadRequest \<longleftrightarrow>
      isl (Atoi (query_Get q ''id''))"
    by (auto simp: getDataFromCacheHandler_def split: sum.splits option.splits)
  have missing: "getDataFromCacheHandler marshal (cache (st p)) q = StatusNotFound \<longleftrightarrow>
      (\<exists>i. Atoi (query_Get q ''id'') = Inr i \<and> get (cache (st p)) (Itoa i) = None)"
    by (auto simp: getDataFromCacheHandler_def split: sum.splits option.splits)
  have found: "getDataFromCacheHandler marshal (cache (st p)) q = StatusOK out \<longleftrightarrow>
      (\<exists>i message. Atoi (query_Get q ''id'') = Inr i \<and>
         get (cache (st p)) (Itoa i) = Some message \<and> marshal message = Inr out)"
    by (auto simp: getDataFromCacheHandler_def split: sum.splits option.splits)
  note fault = getDataFromCacheHandler_fault_iff [of marshal "cache (st p)" q]
  have decoded: "getDataFromCacheHandler marshal (cache (st p)) q = StatusInternalServerError \<longrightarrow>
      (\<exists>js message. unmarshal js = Inr message \<and> isl (marshal message))"
    using inv [THEN conjunct1] by (blast dest: getDataFromCacheHandler_fault_decoded)
  from bad missing found fault decoded inv [THEN conjunct2] show ?thesis by blast
qed

theorem C8_witness:
  "reachable json_Unmarshal_sample json_Marshal_sample [(''7'', late_zone_json)]
     served_internal_error \<and>
   getDataFromCacheHandler json_Marshal_sample (cache (st served_internal_error))
     [(''id'', ''7'')] = StatusInternalServerError \<and>
   Served [(''id'', ''7'')] StatusInternalServerError \<in> set (trace served_internal_error) \<and>
   (\<exists>js message. json_Unmarshal_sample js = Inr message \<and> isl (json_Marshal_sample message)) \<and>
   isl (Atoi (query_Get [] ''id'')) \<and>
   getDataFromCacheHandler json_Marshal_sample (cache (st served_internal_error)) [] =
     StatusBadRequest"
proof -
  note outcomes = C8_lookup_outcomes [OF reachable_served_internal_error]
  have fault: "getDataFromCacheHandler json_Marshal_sample (cache (st served_internal_error))
      [(''id'', ''7'')] = StatusInternalServerError"
    by (simp add: served_internal_error_def getDataFromCacheHandler_late_zone)
  have "\<exists>js message. json_Unmarshal_sample js = Inr message \<and> isl (json_Marshal_sample message)"
    using outcomes [of "[(''id'', ''7'')]"] fault by blast
  moreover have served: "Served [(''id'', ''7'')] StatusInternalServerError \<in>
      set (trace served_internal_error)"
    by (simp add: served_internal_error_def)
  moreover have absent: "isl (Atoi (query_Get [] ''id''))"
    by (simp add: query_Get_def Atoi_samples)
  moreover have "getDataFromCacheHandler json_Marshal_sample (cache (st served_internal_error)) [] =
      StatusBadRequest"
    using outcomes [of "[]"] absent by blast
  ultimately show ?thesis using reachable_served_internal_error fault by blast
qed

theorem C8_counterexample:
  "json_Unmarshal_sample late_zone_json = Inr late_zone_order \<and>
   json_Marshal_sample late_zone_order = Inl ErrMarshal \<and>
   reachable json_Unmarshal_sample json_Marshal_sample [(''7'', late_zone_json)]
     served_internal_error \<and>
   trace served_internal_error =
     [DB_connected, Recovery_attempted None, Served [(''id'', ''7'')] StatusInternalServerError] \<and>
   getDataFromCacheHandler json_Marshal_sample (cache (st served_internal_error))
     [(''id'', ''7'')] = StatusInternalServerError"
  using reachable_served_internal_error
  by (simp add: json_Unmarshal_sample_late_zone json_Marshal_sample_late_zone
      served_internal_error_def getDataFromCacheHandler_late_zone)

section \<open>The two stages of the callback, and a lookup of what it cached\<close>






end
